theory Spec2Isabelle
  imports Main
begin

section \<open>The light-stack bridge: data model\<close>

text \<open>
  The program (\<^verbatim>\<open>src/main.go\<close>) keeps a WebSocket connection to a remote server open,
  decodes every inbound data message into a \<^verbatim>\<open>Command\<close> and forwards it as an HTTP POST
  to a local service. Time is counted in nanoseconds, as Go's \<^verbatim>\<open>time.Duration\<close> does.
\<close>

type_synonym time = int

definition Second :: time where
  "Second = 1000000000"

text \<open>
  The interval between pings is 3 seconds in \<^verbatim>\<open>src/main.go\<close> (10 seconds in the second
  version of the file that follows it there); no property below depends on its value.
\<close>

definition keepAliveInterval :: time where
  "keepAliveInterval = 3 * Second"

definition connectionReadLimit :: time where
  "connectionReadLimit = 60 * Second"

definition wsURL :: string where
  "wsURL = ''wss://laundirs-supply-chain-websocket.azurewebsites.net/light-stack''"

text \<open>The struct \<^verbatim>\<open>Command\<close>; a fresh \<^verbatim>\<open>var cmd Command\<close> holds the zero value.\<close>

record Command =
  DeviceID :: string
  Mode :: string
  TurnOn :: bool

definition zeroCommand :: Command where
  "zeroCommand = \<lparr>DeviceID = [], Mode = [], TurnOn = False\<rparr>"

subsection \<open>JSON values and decoding into a Command\<close>

text \<open>
  A JSON document after parsing. Numbers keep their literal; objects keep the order and
  the duplicates of their members, since a later member overwrites an earlier one.
\<close>

datatype json =
    JNull
  | JBool bool
  | JNum string
  | JStr string
  | JArr "json list"
  | JObj "(string \<times> json) list"

datatype json_error = SyntaxError | UnmarshalTypeError

text \<open>
  The struct tags are \<^verbatim>\<open>json:"device_id"\<close>, \<^verbatim>\<open>json:"mode"\<close> and \<^verbatim>\<open>json:"turnOn"\<close>.
  \<^verbatim>\<open>encoding/json\<close> matches an object key to a field by its tag, exactly or else
  case-insensitively. The three tags hold ASCII letters other than k and s and the
  underscore only, so folding ASCII letters decides the match.
\<close>

definition lower_ascii :: "char \<Rightarrow> char" where
  "lower_ascii c =
     (case map_of (zip ''ABCDEFGHIJKLMNOPQRSTUVWXYZ'' ''abcdefghijklmnopqrstuvwxyz'') c of
        None \<Rightarrow> c
      | Some d \<Rightarrow> d)"

definition match_field :: "string \<Rightarrow> string \<Rightarrow> bool" where
  "match_field tag key = (key = tag \<or> map lower_ascii key = map lower_ascii tag)"

text \<open>
  Storing a JSON value into a field of kind string or bool: the matching literal is
  stored, \<^verbatim>\<open>null\<close> leaves the field as it is, anything else is recorded as a type error
  (the second component) and the field is left as it is.
\<close>

fun store_string :: "json \<Rightarrow> string \<Rightarrow> string \<times> bool" where
  "store_string (JStr s) old = (s, False)"
| "store_string JNull old = (old, False)"
| "store_string v old = (old, True)"

fun store_bool :: "json \<Rightarrow> bool \<Rightarrow> bool \<times> bool" where
  "store_bool (JBool b) old = (b, False)"
| "store_bool JNull old = (old, False)"
| "store_bool v old = (old, True)"

text \<open>One member of the object; members whose key matches no tag are skipped.\<close>

fun object_member :: "Command \<times> bool \<Rightarrow> string \<times> json \<Rightarrow> Command \<times> bool" where
  "object_member (c, bad) (k, v) =
     (if match_field ''device_id'' k then
        (c\<lparr>DeviceID := fst (store_string v (DeviceID c))\<rparr>, bad \<or> snd (store_string v (DeviceID c)))
      else if match_field ''mode'' k then
        (c\<lparr>Mode := fst (store_string v (Mode c))\<rparr>, bad \<or> snd (store_string v (Mode c)))
      else if match_field ''turnOn'' k then
        (c\<lparr>TurnOn := fst (store_bool v (TurnOn c))\<rparr>, bad \<or> snd (store_bool v (TurnOn c)))
      else (c, bad))"

text \<open>
  Unmarshalling a parsed value into \<^verbatim>\<open>&cmd\<close>: an object is stored member by member and
  the type error, if any, is returned at the end; \<^verbatim>\<open>null\<close> stores nothing; every other
  value cannot be stored into a struct.
\<close>

fun unmarshal :: "json \<Rightarrow> json_error + Command" where
  "unmarshal (JObj kvs) =
     (case foldl object_member (zeroCommand, False) kvs of
        (c, bad) \<Rightarrow> if bad then Inl UnmarshalTypeError else Inr c)"
| "unmarshal JNull = Inr zeroCommand"
| "unmarshal v = Inl UnmarshalTypeError"

text \<open>
  The payload of a data message is \<open>None\<close> when it does not start with a well-formed JSON
  value (an empty message included), else the value parsed.
\<close>

definition decode :: "json option \<Rightarrow> json_error + Command" where
  "decode p = (case p of None \<Rightarrow> Inl SyntaxError | Some j \<Rightarrow> unmarshal j)"

section \<open>Observable actions\<close>

datatype read_error = Timeout | Closed | DecodeError json_error

datatype dispatch_error = FailedToCreate | FailedToSend | UnexpectedStatus int

datatype log_msg =
    Attempting
  | FailedToConnect
  | Connected
  | ConnectionLost read_error
  | Disconnected
  | Received Command
  | FailedToProcess dispatch_error
  | FailedToSendPing
  | PingSent
  | SendingPost string
  | Successful string

datatype action =
    Log log_msg
  | Dial string
  | Sleep time
  | GoKeepAlive
  | HTTPPost string
  | WritePing bool
  | TickerStop
  | ConnClose
  | CloseDone

section \<open>sendHTTPRequest\<close>

text \<open>
  What the HTTP stack does with one POST: \<^verbatim>\<open>http.NewRequest\<close> rejects the URL, or
  \<^verbatim>\<open>client.Do\<close> fails, or a response with a status code comes back. The environment
  gives the outcome of the n-th request of a session from its URL.
\<close>

datatype http_outcome = NewRequestError | DoError | Response int

type_synonym http_env = "nat \<Rightarrow> string \<Rightarrow> http_outcome"

definition StatusOK :: int where
  "StatusOK = 200"

definition fmt_bool :: "bool \<Rightarrow> string" where
  "fmt_bool b = (if b then ''true'' else ''false'')"

definition apiURL :: "Command \<Rightarrow> string" where
  "apiURL cmd =
     ''http://localhost:8080/api/device/gpo/light/'' @ DeviceID cmd
       @ ''?mode='' @ Mode cmd @ ''&turnOn='' @ fmt_bool (TurnOn cmd)"

definition sendHTTPRequest :: "(string \<Rightarrow> http_outcome) \<Rightarrow> Command \<Rightarrow> (dispatch_error + unit) \<times> action list" where
  "sendHTTPRequest http cmd =
     (case http (apiURL cmd) of
        NewRequestError \<Rightarrow> (Inl FailedToCreate, [Log (SendingPost (apiURL cmd))])
      | DoError \<Rightarrow> (Inl FailedToSend, [Log (SendingPost (apiURL cmd)), HTTPPost (apiURL cmd)])
      | Response code \<Rightarrow>
          if code \<noteq> StatusOK
          then (Inl (UnexpectedStatus code), [Log (SendingPost (apiURL cmd)), HTTPPost (apiURL cmd)])
          else (Inr (), [Log (SendingPost (apiURL cmd)), HTTPPost (apiURL cmd),
                         Log (Successful (DeviceID cmd))]))"

text \<open>
  \<^verbatim>\<open>http.NewRequest\<close> parses the URL with \<^verbatim>\<open>net/url\<close>: the fragment is what follows the
  first \<^verbatim>\<open>#\<close>, the raw query what follows the first \<^verbatim>\<open>?\<close> of the rest, and the rest is
  scheme, authority and path.
\<close>

definition cut :: "char \<Rightarrow> string \<Rightarrow> string \<times> string" where
  "cut sep s = (takeWhile (\<lambda>x. x \<noteq> sep) s, drop 1 (dropWhile (\<lambda>x. x \<noteq> sep) s))"

definition url_location :: "string \<Rightarrow> string" where
  "url_location u = fst (cut (CHR ''?'') (fst (cut (CHR ''#'') u)))"

definition url_rawquery :: "string \<Rightarrow> string" where
  "url_rawquery u = snd (cut (CHR ''?'') (fst (cut (CHR ''#'') u)))"

text \<open>The query parameters are the pieces of the raw query between \<^verbatim>\<open>&\<close>.\<close>

fun split_on :: "char \<Rightarrow> string \<Rightarrow> string list" where
  "split_on sep [] = [[]]"
| "split_on sep (x # xs) =
     (if x = sep then [] # split_on sep xs
      else (case split_on sep xs of [] \<Rightarrow> [[x]] | p # ps \<Rightarrow> (x # p) # ps))"

definition query_params :: "string \<Rightarrow> string list" where
  "query_params u = split_on (CHR ''&'') (url_rawquery u)"


section \<open>The read loop: ReadJSON and handleMessages\<close>

text \<open>
  The inbound side of one connection is the list of frames the reader obtains, each with
  the time at which the pending read obtains it; after the last frame the peer is
  silent. A frame is a data message, a pong (the acknowledgment of a ping), or the end
  of the connection (a close frame or a broken link).
\<close>

datatype frame = Data "json option" | Pong | PeerClose

type_synonym inbound = "(time \<times> frame) list"

text \<open>
  One call of \<^verbatim>\<open>conn.ReadJSON(&cmd)\<close> under the read deadline \<open>dl\<close>. A read that is still
  pending after the deadline fails with a timeout. A pong is consumed inside the call
  and runs the pong handler, which sets the deadline to the current time plus
  \<^verbatim>\<open>connectionReadLimit\<close>; the call then goes on reading. A data message is decoded.
  The result is the error or the Command, the deadline then in force, and the frames
  not yet read.
\<close>

fun ReadJSON :: "time \<Rightarrow> inbound \<Rightarrow> (read_error + Command) \<times> time \<times> inbound" where
  "ReadJSON dl [] = (Inl Timeout, dl, [])"
| "ReadJSON dl ((t, f) # rest) =
     (if dl < t then (Inl Timeout, dl, rest)
      else (case f of
              Pong \<Rightarrow> ReadJSON (t + connectionReadLimit) rest
            | PeerClose \<Rightarrow> (Inl Closed, dl, rest)
            | Data p \<Rightarrow>
                (case decode p of
                   Inl e \<Rightarrow> (Inl (DecodeError e), dl, rest)
                 | Inr cmd \<Rightarrow> (Inr cmd, dl, rest))))"

text \<open>
  The \<^verbatim>\<open>for\<close> loop of \<^verbatim>\<open>handleMessages\<close>: it leaves only through the error of
  \<^verbatim>\<open>ReadJSON\<close>; the error of \<^verbatim>\<open>sendHTTPRequest\<close> is logged and the loop goes on.
  \<open>n\<close> counts the requests sent so far.
\<close>

function read_loop :: "http_env \<Rightarrow> nat \<Rightarrow> time \<Rightarrow> inbound \<Rightarrow> read_error \<times> action list" where
  "read_loop env n dl evs =
     (case ReadJSON dl evs of
        (Inl e, dl', rest) \<Rightarrow> (e, [])
      | (Inr cmd, dl', rest) \<Rightarrow>
          (case read_loop env (Suc n) dl' rest of
             (e, tr) \<Rightarrow>
               (e, Log (Received cmd)
                     # snd (sendHTTPRequest (env n) cmd)
                     @ (case fst (sendHTTPRequest (env n) cmd) of
                          Inl de \<Rightarrow> [Log (FailedToProcess de)]
                        | Inr u \<Rightarrow> [])
                     @ tr)))"
  by pat_completeness auto
termination
proof (relation "measure (\<lambda>(env, n, dl, evs). length evs)")
  show "wf (measure (\<lambda>(env, n, dl, evs). length evs))"
    by simp
next
  fix env :: http_env and n :: nat and dl :: time and evs :: inbound
    and x y cmd dl' rest
  assume "(x, y) = ReadJSON dl evs" and "x = Inr cmd" and "(dl', rest) = y"
  then have r: "ReadJSON dl evs = (Inr cmd, dl', rest)"
    by simp
  have "ReadJSON d es = (Inr c, d', rs) \<Longrightarrow> length rs < length es" for d es c d' rs
    by (induction d es rule: ReadJSON.induct)
       (auto split: if_splits frame.splits sum.splits)
  from this [OF r]
  show "((env, Suc n, dl', rest), env, n, dl, evs) \<in> measure (\<lambda>(env, n, dl, evs). length evs)"
    by simp
qed

text \<open>
  \<^verbatim>\<open>handleMessages\<close>, called at time \<open>now\<close>: it arms the read deadline, runs the loop
  and, on its way out, runs the deferred calls in reverse order of their registration:
  \<^verbatim>\<open>conn.Close()\<close> first, \<^verbatim>\<open>close(done)\<close> second. The error it returns wraps the
  error of \<^verbatim>\<open>ReadJSON\<close> and is never \<^verbatim>\<open>nil\<close>.
\<close>

definition handleMessages :: "http_env \<Rightarrow> time \<Rightarrow> inbound \<Rightarrow> read_error \<times> action list" where
  "handleMessages env now evs =
     (case read_loop env 0 (now + connectionReadLimit) evs of
        (e, tr) \<Rightarrow> (e, tr @ [ConnClose, CloseDone]))"

section \<open>keepAlive and its interleaving with handleMessages\<close>

text \<open>
  One iteration of the loop of \<^verbatim>\<open>keepAlive\<close>. The \<^verbatim>\<open>select\<close> statement takes one of
  its two cases; when both channels are ready the Go runtime picks either. \<open>wrote\<close>
  says whether \<^verbatim>\<open>conn.WriteMessage\<close> returned without error. The result is what the
  iteration did and whether the loop goes on; the deferred \<^verbatim>\<open>ticker.Stop()\<close> runs
  when it does not.
\<close>

datatype select_case = CaseDone | CaseTick

fun keepAlive_iter :: "select_case \<Rightarrow> bool \<Rightarrow> action list \<times> bool" where
  "keepAlive_iter CaseDone wrote = ([TickerStop], False)"
| "keepAlive_iter CaseTick wrote =
     (if wrote then ([WritePing True, Log PingSent], True)
      else ([WritePing False, Log FailedToSendPing, TickerStop], False))"

text \<open>
  One session: the goroutine of \<^verbatim>\<open>handleMessages\<close> (the actions it has yet to perform)
  and the goroutine of \<^verbatim>\<open>keepAlive\<close> share the connection and the channel
  \<^verbatim>\<open>done\<close>. A schedule says which goroutine moves next; for \<^verbatim>\<open>keepAlive\<close> it also
  says which case the \<^verbatim>\<open>select\<close> takes and whether the link would accept a write.
  The case \<^verbatim>\<open><-done\<close> can be taken only once the channel is closed; a tick may be
  pending at any moment. A write on a closed connection fails.
\<close>

datatype event = ByReader action | ByMonitor action

record session =
  reader :: "action list"
  conn_open :: bool
  done_closed :: bool
  monitor_running :: bool
  history :: "event list"

datatype sched = StepReader | StepMonitor select_case bool

fun step :: "sched \<Rightarrow> session \<Rightarrow> session option" where
  "step StepReader s =
     (case reader s of
        [] \<Rightarrow> None
      | a # as \<Rightarrow>
          Some (s\<lparr>reader := as,
                  conn_open := (if a = ConnClose then False else conn_open s),
                  done_closed := (if a = CloseDone then True else done_closed s),
                  history := history s @ [ByReader a]\<rparr>))"
| "step (StepMonitor c link_ok) s =
     (if monitor_running s \<and> (c = CaseTick \<or> done_closed s) then
        (case keepAlive_iter c (conn_open s \<and> link_ok) of
           (acts, goes_on) \<Rightarrow>
             Some (s\<lparr>monitor_running := goes_on,
                     history := history s @ map ByMonitor acts\<rparr>))
      else None)"

fun run :: "sched list \<Rightarrow> session \<Rightarrow> session option" where
  "run [] s = Some s"
| "run (x # xs) s = (case step x s of None \<Rightarrow> None | Some s' \<Rightarrow> run xs s')"

text \<open>
  The session as \<^verbatim>\<open>main\<close> starts it: \<^verbatim>\<open>go keepAlive(conn, done)\<close>, then
  \<^verbatim>\<open>handleMessages(conn, done)\<close>.
\<close>

definition start_session :: "http_env \<Rightarrow> time \<Rightarrow> inbound \<Rightarrow> session" where
  "start_session env now evs =
     \<lparr>reader = snd (handleMessages env now evs), conn_open = True, done_closed = False,
      monitor_running = True, history = []\<rparr>"

text \<open>The pings \<^verbatim>\<open>keepAlive\<close> attempts at or after the closing of \<^verbatim>\<open>done\<close>.\<close>

fun is_ping :: "event \<Rightarrow> bool" where
  "is_ping (ByMonitor (WritePing b)) = True"
| "is_ping e = False"

definition after_stop :: "event list \<Rightarrow> event list" where
  "after_stop h = dropWhile (\<lambda>e. e \<noteq> ByReader CloseDone) h"

definition pings_after_stop :: "event list \<Rightarrow> event list" where
  "pings_after_stop h = filter is_ping (after_stop h)"

section \<open>main\<close>

text \<open>
  One iteration of the loop of \<^verbatim>\<open>main\<close>, by what \<^verbatim>\<open>Dial\<close> does: it fails, or it
  gives a connection, at time \<open>now\<close>, with its inbound frames. The loop has no exit;
  \<open>main_loop\<close> is what it does over its first iterations.
\<close>

datatype dial_outcome = DialError | DialOK time inbound

fun main_iter :: "http_env \<Rightarrow> dial_outcome \<Rightarrow> action list" where
  "main_iter env DialError =
     [Log Attempting, Dial wsURL, Log FailedToConnect, Sleep (2 * Second)]"
| "main_iter env (DialOK now evs) =
     [Log Attempting, Dial wsURL, Log Connected, GoKeepAlive]
       @ snd (handleMessages env now evs)
       @ [Log (ConnectionLost (fst (handleMessages env now evs))), Log Disconnected,
          Sleep (2 * Second)]"

fun main_loop :: "http_env \<Rightarrow> dial_outcome list \<Rightarrow> action list" where
  "main_loop env [] = []"
| "main_loop env (d # ds) = main_iter env d @ main_loop env ds"

section \<open>Predicates used to state the properties\<close>





text \<open>
  Acknowledgments arrive steadily after the time \<open>t0\<close> when each comes no later than
  \<^verbatim>\<open>connectionReadLimit\<close> after the one before it (the first: after \<open>t0\<close>).
\<close>

fun steady :: "time \<Rightarrow> time list \<Rightarrow> bool" where
  "steady t0 [] = True"
| "steady t0 (t # ts) = (t \<le> t0 + connectionReadLimit \<and> steady t ts)"

text \<open>
  What holds of a session at every moment: before \<^verbatim>\<open>done\<close> is closed the reader has
  not signalled, and either the connection is open and the reader's last two actions
  to come are \<^verbatim>\<open>conn.Close()\<close> and \<^verbatim>\<open>close(done)\<close>, or the connection is closed and
  \<^verbatim>\<open>close(done)\<close> is all that is left; once \<^verbatim>\<open>done\<close> is closed the connection is
  closed, the reader has finished, and \<^verbatim>\<open>keepAlive\<close> has attempted at most one ping
  since, which failed and ended it.
\<close>

definition session_inv :: "session \<Rightarrow> bool" where
  "session_inv s =
     (if done_closed s then
        \<not> conn_open s \<and> reader s = []
        \<and> length (filter (\<lambda>e. e = ByReader CloseDone) (history s)) = 1
        \<and> ByReader ConnClose \<in> set (takeWhile (\<lambda>e. e \<noteq> ByReader CloseDone) (history s))
        \<and> ByMonitor (WritePing True) \<notin> set (after_stop (history s))
        \<and> length (pings_after_stop (history s)) \<le> 1
        \<and> (pings_after_stop (history s) \<noteq> [] \<longrightarrow> \<not> monitor_running s)
      else
        ByReader CloseDone \<notin> set (history s)
        \<and> (if conn_open s then
              (\<exists>pre. reader s = pre @ [ConnClose, CloseDone]
                 \<and> ConnClose \<notin> set pre \<and> CloseDone \<notin> set pre)
            else reader s = [CloseDone] \<and> ByReader ConnClose \<in> set (history s)))"

section \<open>Properties of the read loop\<close>

declare read_loop.simps [simp del]

lemma read_loop_exit:
  "fst (ReadJSON dl evs) = Inl e \<Longrightarrow> read_loop env n dl evs = (e, [])"
  by (subst read_loop.simps) (auto split: prod.splits sum.splits)

lemma read_loop_command:
  "ReadJSON dl evs = (Inr cmd, dl', rest) \<Longrightarrow>
   read_loop env n dl evs =
     (fst (read_loop env (Suc n) dl' rest),
      Log (Received cmd) # snd (sendHTTPRequest (env n) cmd)
        @ (case fst (sendHTTPRequest (env n) cmd) of
             Inl de \<Rightarrow> [Log (FailedToProcess de)]
           | Inr u \<Rightarrow> [])
        @ snd (read_loop env (Suc n) dl' rest))"
  by (subst read_loop.simps) (simp split: prod.splits)

lemma ReadJSON_data:
  "t \<le> dl \<Longrightarrow> decode p = Inr cmd \<Longrightarrow> ReadJSON dl ((t, Data p) # rest) = (Inr cmd, dl, rest)"
  by simp

lemma sendHTTPRequest_no_teardown:
  "ConnClose \<notin> set (snd (sendHTTPRequest http cmd))
   \<and> CloseDone \<notin> set (snd (sendHTTPRequest http cmd))"
  by (simp add: sendHTTPRequest_def split: http_outcome.splits)

lemma decode_empty_object: "decode (Some (JObj [])) = Inr zeroCommand"
  by (simp add: decode_def)

text \<open>
  C6. When the dispatch of a Command fails, the read loop does not end and the
  connection is not closed: the failure is logged and the loop goes on to read and
  dispatch the frames that follow, under the same deadline.
\<close>

theorem dispatch_error_not_terminal:
  assumes "t \<le> dl" and "decode p = Inr cmd"
    and "fst (sendHTTPRequest (env n) cmd) = Inl de"
  shows "read_loop env n dl ((t, Data p) # rest) =
           (fst (read_loop env (Suc n) dl rest),
            Log (Received cmd) # snd (sendHTTPRequest (env n) cmd)
              @ [Log (FailedToProcess de)] @ snd (read_loop env (Suc n) dl rest))
         \<and> ConnClose \<notin> set (snd (sendHTTPRequest (env n) cmd))
         \<and> CloseDone \<notin> set (snd (sendHTTPRequest (env n) cmd))
         \<and> (t' \<le> dl \<and> decode p' = Inr cmd' \<longrightarrow>
              (\<exists>tl. snd (read_loop env n dl ((t, Data p) # (t', Data p') # rest')) =
                 Log (Received cmd) # snd (sendHTTPRequest (env n) cmd)
                   @ [Log (FailedToProcess de)]
                   @ Log (Received cmd') # snd (sendHTTPRequest (env (Suc n)) cmd') @ tl))"
proof -
  have step: "read_loop env n dl ((t, Data p) # r) =
           (fst (read_loop env (Suc n) dl r),
            Log (Received cmd) # snd (sendHTTPRequest (env n) cmd)
              @ [Log (FailedToProcess de)] @ snd (read_loop env (Suc n) dl r))" for r
  proof -
    have "ReadJSON dl ((t, Data p) # r) = (Inr cmd, dl, r)"
      using assms(1,2) by (rule ReadJSON_data)
    from read_loop_command [OF this, of env n] assms(3) show ?thesis
      by simp
  qed
  have nxt: "\<exists>tl. snd (read_loop env n dl ((t, Data p) # (t', Data p') # rest')) =
                 Log (Received cmd) # snd (sendHTTPRequest (env n) cmd)
                   @ [Log (FailedToProcess de)]
                   @ Log (Received cmd') # snd (sendHTTPRequest (env (Suc n)) cmd') @ tl"
    if "t' \<le> dl \<and> decode p' = Inr cmd'"
  proof -
    from that have "ReadJSON dl ((t', Data p') # rest') = (Inr cmd', dl, rest')"
      by (simp add: ReadJSON_data)
    from read_loop_command [OF this, of env "Suc n"]
    have "\<exists>tl. snd (read_loop env (Suc n) dl ((t', Data p') # rest')) =
            Log (Received cmd') # snd (sendHTTPRequest (env (Suc n)) cmd') @ tl"
      by simp
    then show ?thesis
      by (auto simp: step [of "(t', Data p') # rest'"])
  qed
  from step [of rest] nxt sendHTTPRequest_no_teardown [of "env n" cmd] show ?thesis
    by blast
qed

theorem dispatch_error_not_terminal_witness:
  "(1::int) \<le> 60
   \<and> decode (Some (JObj [])) = Inr zeroCommand
   \<and> fst (sendHTTPRequest ((\<lambda>n u. Response 500) (0::nat)) zeroCommand) = Inl (UnexpectedStatus 500)
   \<and> read_loop (\<lambda>n u. Response 500) 0 60 [(1, Data (Some (JObj []))), (2, Data (Some (JObj [])))] =
       (fst (read_loop (\<lambda>n u. Response 500) (Suc 0) 60 [(2, Data (Some (JObj [])))]),
        Log (Received zeroCommand) # snd (sendHTTPRequest ((\<lambda>n u. Response 500) (0::nat)) zeroCommand)
          @ [Log (FailedToProcess (UnexpectedStatus 500))]
          @ snd (read_loop (\<lambda>n u. Response 500) (Suc 0) 60 [(2, Data (Some (JObj [])))]))
   \<and> read_loop (\<lambda>n u. Response 500) 0 60 [(1, Data (Some (JObj []))), (2, Data (Some (JObj [])))] =
       (Timeout,
        [Log (Received zeroCommand),
         Log (SendingPost ''http://localhost:8080/api/device/gpo/light/?mode=&turnOn=false''),
         HTTPPost ''http://localhost:8080/api/device/gpo/light/?mode=&turnOn=false'',
         Log (FailedToProcess (UnexpectedStatus 500)),
         Log (Received zeroCommand),
         Log (SendingPost ''http://localhost:8080/api/device/gpo/light/?mode=&turnOn=false''),
         HTTPPost ''http://localhost:8080/api/device/gpo/light/?mode=&turnOn=false'',
         Log (FailedToProcess (UnexpectedStatus 500))])"
proof -
  have a: "(1::int) \<le> 60" by simp
  have b: "fst (sendHTTPRequest ((\<lambda>n u. Response 500) (0::nat)) zeroCommand) = Inl (UnexpectedStatus 500)"
    by (simp add: sendHTTPRequest_def StatusOK_def)
  from dispatch_error_not_terminal [OF a decode_empty_object, of "\<lambda>n u. Response 500" 0, OF b,
      of "[(2, Data (Some (JObj [])))]" 2 "Some (JObj [])" zeroCommand "[]"]
  show ?thesis
    using a b decode_empty_object
    by (simp add: read_loop_command read_loop_exit sendHTTPRequest_def StatusOK_def apiURL_def
          fmt_bool_def zeroCommand_def)
qed

text \<open>
  C9. \<^verbatim>\<open>sendHTTPRequest\<close> succeeds exactly when a response with status 200 comes back;
  a response with any other status code, 201 and 204 among them, is an error.
\<close>

theorem status_200_only:
  "(fst (sendHTTPRequest http cmd) = Inr ()) = (http (apiURL cmd) = Response 200)
   \<and> (\<forall>code. http (apiURL cmd) = Response code \<and> code \<noteq> 200 \<longrightarrow>
         fst (sendHTTPRequest http cmd) = Inl (UnexpectedStatus code))"
  by (auto simp: sendHTTPRequest_def StatusOK_def split: http_outcome.splits)

theorem status_200_only_witness:
  "fst (sendHTTPRequest (\<lambda>u. Response 201) zeroCommand) = Inl (UnexpectedStatus 201)
   \<and> fst (sendHTTPRequest (\<lambda>u. Response 204) zeroCommand) = Inl (UnexpectedStatus 204)
   \<and> fst (sendHTTPRequest (\<lambda>u. Response 200) zeroCommand) = Inr ()"
  using status_200_only [of "\<lambda>u. Response 201" zeroCommand]
    status_200_only [of "\<lambda>u. Response 204" zeroCommand]
    status_200_only [of "\<lambda>u. Response 200" zeroCommand]
  by simp

lemma read_loop_no_teardown:
  "ConnClose \<notin> set (snd (read_loop env n dl evs)) \<and> CloseDone \<notin> set (snd (read_loop env n dl evs))"
proof (induction env n dl evs rule: read_loop.induct)
  case (1 env n dl evs)
  show ?case
  proof (cases "ReadJSON dl evs")
    case (fields r dl' rest)
    show ?thesis
    proof (cases r)
      case (Inl e)
      with fields have "read_loop env n dl evs = (e, [])"
        by (simp add: read_loop_exit)
      then show ?thesis by simp
    next
      case (Inr cmd)
      with fields have r: "ReadJSON dl evs = (Inr cmd, dl', rest)" by simp
      have "(r, dl', rest) = ReadJSON dl evs" "r = Inr cmd" "(dl', rest) = (dl', rest)"
        using fields Inr by simp_all
      from "1.IH" [OF this]
      have "ConnClose \<notin> set (snd (read_loop env (Suc n) dl' rest))
          \<and> CloseDone \<notin> set (snd (read_loop env (Suc n) dl' rest))" .
      then show ?thesis
        using sendHTTPRequest_no_teardown [of "env n" cmd]
        by (simp add: read_loop_command [OF r] split: sum.splits)
    qed
  qed
qed

lemma handleMessages_shape:
  "handleMessages env now evs =
     (fst (read_loop env 0 (now + connectionReadLimit) evs),
      snd (read_loop env 0 (now + connectionReadLimit) evs) @ [ConnClose, CloseDone])"
  by (simp add: handleMessages_def split: prod.splits)

text \<open>
  C5. Whatever makes \<^verbatim>\<open>ReadJSON\<close> fail (the deadline, a payload that does not decode, the
  end of the connection), the loop is left at once with that error; \<^verbatim>\<open>handleMessages\<close>
  then closes the connection and closes \<^verbatim>\<open>done\<close>, and \<^verbatim>\<open>main\<close> logs, sleeps two
  seconds and goes on to its next iteration, which, like every iteration, starts by
  dialling. A malformed payload ends the session: the frames behind it are never read.
\<close>

theorem read_failure_tears_down:
  "(fst (ReadJSON dl evs) = Inl e \<longrightarrow> read_loop env n dl evs = (e, []))
   \<and> (\<exists>pre. snd (handleMessages env now evs) = pre @ [ConnClose, CloseDone]
         \<and> ConnClose \<notin> set pre \<and> CloseDone \<notin> set pre
         \<and> main_loop env (DialOK now evs # ds) =
             [Log Attempting, Dial wsURL, Log Connected, GoKeepAlive] @ pre
               @ [ConnClose, CloseDone, Log (ConnectionLost (fst (handleMessages env now evs))),
                  Log Disconnected, Sleep (2 * Second)]
               @ main_loop env ds)
   \<and> (t \<le> now + connectionReadLimit \<longrightarrow>
        handleMessages env now ((t, Data None) # rest) =
          (DecodeError SyntaxError, [ConnClose, CloseDone])
        \<and> handleMessages env now ((t, PeerClose) # rest) = (Closed, [ConnClose, CloseDone]))
   \<and> (now + connectionReadLimit < t \<longrightarrow>
        handleMessages env now ((t, f) # rest) = (Timeout, [ConnClose, CloseDone]))
   \<and> handleMessages env now [] = (Timeout, [ConnClose, CloseDone])
   \<and> take 2 (main_iter env d) = [Log Attempting, Dial wsURL]"
proof -
  have g: "take 2 (main_iter env d) = [Log Attempting, Dial wsURL]"
    by (cases d) simp_all
  have a: "fst (ReadJSON dl evs) = Inl e \<longrightarrow> read_loop env n dl evs = (e, [])"
    by (simp add: read_loop_exit)
  have b: "\<exists>pre. snd (handleMessages env now evs) = pre @ [ConnClose, CloseDone]
         \<and> ConnClose \<notin> set pre \<and> CloseDone \<notin> set pre
         \<and> main_loop env (DialOK now evs # ds) =
             [Log Attempting, Dial wsURL, Log Connected, GoKeepAlive] @ pre
               @ [ConnClose, CloseDone, Log (ConnectionLost (fst (handleMessages env now evs))),
                  Log Disconnected, Sleep (2 * Second)]
               @ main_loop env ds"
    using read_loop_no_teardown [of env 0 "now + connectionReadLimit" evs]
    by (intro exI [of _ "snd (read_loop env 0 (now + connectionReadLimit) evs)"])
       (simp add: handleMessages_shape)
  have c: "t \<le> now + connectionReadLimit \<longrightarrow>
        handleMessages env now ((t, Data None) # rest) =
          (DecodeError SyntaxError, [ConnClose, CloseDone])
        \<and> handleMessages env now ((t, PeerClose) # rest) = (Closed, [ConnClose, CloseDone])"
    by (simp add: handleMessages_shape read_loop_exit decode_def)
  have d: "now + connectionReadLimit < t \<longrightarrow>
        handleMessages env now ((t, f) # rest) = (Timeout, [ConnClose, CloseDone])"
    by (simp add: handleMessages_shape read_loop_exit)
  have e: "handleMessages env now [] = (Timeout, [ConnClose, CloseDone])"
    by (simp add: handleMessages_shape read_loop_exit)
  from a b c d e g show ?thesis by blast
qed

theorem read_failure_tears_down_witness:
  "handleMessages (\<lambda>n u. Response 200) 0 [(1, Data None), (2, Data (Some (JObj [])))] =
     (DecodeError SyntaxError, [ConnClose, CloseDone])
   \<and> handleMessages (\<lambda>n u. Response 200) 0 [(1, PeerClose), (2, Data (Some (JObj [])))] =
     (Closed, [ConnClose, CloseDone])
   \<and> handleMessages (\<lambda>n u. Response 200) 0 [(61 * Second, Data (Some (JObj [])))] =
     (Timeout, [ConnClose, CloseDone])
   \<and> main_loop (\<lambda>n u. Response 200) [DialOK 0 [(1, Data None), (2, Data (Some (JObj [])))], DialError] =
       [Log Attempting, Dial wsURL, Log Connected, GoKeepAlive, ConnClose, CloseDone,
        Log (ConnectionLost (DecodeError SyntaxError)), Log Disconnected, Sleep (2 * Second),
        Log Attempting, Dial wsURL, Log FailedToConnect, Sleep (2 * Second)]"
  using read_failure_tears_down [where env = "\<lambda>n u. Response 200" and now = 0 and t = 1
      and evs = "[(1, Data None), (2, Data (Some (JObj [])))]" and ds = "[DialError]"
      and rest = "[(2, Data (Some (JObj [])))]" and dl = 0 and n = 0 and e = Timeout
      and f = "Data (Some (JObj []))" and d = DialError]
    read_failure_tears_down [where env = "\<lambda>n u. Response 200" and now = 0 and t = "61 * Second"
      and evs = "[]" and ds = "[]" and rest = "[]" and dl = 0 and n = 0 and e = Timeout
      and f = "Data (Some (JObj []))" and d = DialError]
  by (auto simp: connectionReadLimit_def Second_def)

text \<open>
  C1, as stated, fails: a data message read at 30 s leaves the deadline armed at the
  start (60 s) as it is, and a session that receives a Command every 31 s and no pong
  times out at the second Command.
\<close>

theorem steady_commands_time_out:
  "ReadJSON (0 + connectionReadLimit) [(30 * Second, Data (Some (JObj [])))] =
     (Inr zeroCommand, 0 + connectionReadLimit, [])
   \<and> 0 + connectionReadLimit \<noteq> 30 * Second + connectionReadLimit
   \<and> fst (handleMessages (\<lambda>n u. Response 200) 0
            [(30 * Second, Data (Some (JObj []))), (61 * Second, Data (Some (JObj [])))]) = Timeout"
  by (simp add: handleMessages_shape read_loop_command read_loop_exit decode_def
        connectionReadLimit_def Second_def)

lemma steady_pongs:
  "steady now (ts @ [t]) \<Longrightarrow>
   ReadJSON (now + connectionReadLimit) (map (\<lambda>x. (x, Pong)) ts @ (t, f) # rest) =
     ReadJSON (last (now # ts) + connectionReadLimit) ((t, f) # rest)
   \<and> t \<le> last (now # ts) + connectionReadLimit"
proof (induction ts arbitrary: now)
  case Nil
  then show ?case by simp
next
  case (Cons a ts)
  from Cons.prems have "a \<le> now + connectionReadLimit" and "steady a (ts @ [t])"
    by simp_all
  with Cons.IH [of a] show ?case by simp
qed

lemma no_pong_keeps_deadline:
  "\<forall>x\<in>set evs. snd x \<noteq> Pong \<Longrightarrow> fst (snd (ReadJSON dl evs)) = dl"
  by (induction dl evs rule: ReadJSON.induct) (auto split: frame.splits sum.splits)

lemma read_loop_pong:
  "t \<le> dl \<Longrightarrow> read_loop env n dl ((t, Pong) # rest) = read_loop env n (t + connectionReadLimit) rest"
  by (simp add: read_loop.simps [of env n dl "(t, Pong) # rest"]
        read_loop.simps [of env n "t + connectionReadLimit" rest])

lemma no_pong_late_frame:
  "\<forall>x\<in>set evs. snd x \<noteq> Pong \<Longrightarrow> dl < t \<Longrightarrow>
   read_loop env n dl (evs @ (t, f) # rest) = read_loop env n dl evs"
proof (induction evs arbitrary: n)
  case Nil
  then show ?case by (simp add: read_loop_exit)
next
  case (Cons a evs)
  obtain t1 f1 where a: "a = (t1, f1)" by (cases a)
  from Cons.prems a have np: "f1 \<noteq> Pong" and rest: "\<forall>x\<in>set evs. snd x \<noteq> Pong"
    by simp_all
  show ?case
  proof (cases "dl < t1")
    case True
    with a show ?thesis by (simp add: read_loop_exit)
  next
    case False
    then have le: "t1 \<le> dl" by simp
    show ?thesis
    proof (cases f1)
      case Pong
      with np show ?thesis by simp
    next
      case PeerClose
      with a le show ?thesis by (simp add: read_loop_exit)
    next
      case (Data p)
      show ?thesis
      proof (cases "decode p")
        case (Inl e)
        with a le Data show ?thesis by (simp add: read_loop_exit)
      next
        case (Inr c)
        from ReadJSON_data [OF le Inr]
        have r1: "ReadJSON dl ((t1, Data p) # evs @ (t, f) # rest) = (Inr c, dl, evs @ (t, f) # rest)"
          and r2: "ReadJSON dl ((t1, Data p) # evs) = (Inr c, dl, evs)"
          by simp_all
        from Cons.IH [OF rest Cons.prems(2), of "Suc n"] a Data show ?thesis
          by (simp add: read_loop_command [OF r1] read_loop_command [OF r2])
      qed
    qed
  qed
qed

lemma steady_pongs_loop:
  "steady now (ts @ [t]) \<Longrightarrow>
   read_loop env n (now + connectionReadLimit) (map (\<lambda>x. (x, Pong)) ts @ (t, f) # rest) =
     read_loop env n (last (now # ts) + connectionReadLimit) ((t, f) # rest)
   \<and> t \<le> last (now # ts) + connectionReadLimit"
proof (induction ts arbitrary: now)
  case Nil
  then show ?case by simp
next
  case (Cons a ts)
  from Cons.prems have le: "a \<le> now + connectionReadLimit" and st: "steady a (ts @ [t])"
    by simp_all
  from Cons.IH [OF st] read_loop_pong [OF le, of env n] show ?case by simp
qed

text \<open>
  C1, amended. The deadline is armed at the start of \<^verbatim>\<open>handleMessages\<close> and re-armed, to
  the current time plus \<^verbatim>\<open>connectionReadLimit\<close>, by every pong read within the deadline
  and by nothing else: after such a pong the session goes on as one started at the time
  of the pong, while after a data message read and decoded the loop goes on under the
  deadline it had. So in a session that receives no pong, whatever arrives later than
  \<^verbatim>\<open>connectionReadLimit\<close> after the start is never read, however steady the Commands
  before it. A session whose pongs arrive steadily reads the Command that follows them.
\<close>

theorem pong_rearms_deadline:
  "(t \<le> dl \<longrightarrow> ReadJSON dl ((t, Pong) # rest) = ReadJSON (t + connectionReadLimit) rest)
   \<and> (t \<le> dl \<and> decode p = Inr cmd \<longrightarrow> ReadJSON dl ((t, Data p) # rest) = (Inr cmd, dl, rest))
   \<and> ((\<forall>x\<in>set evs. snd x \<noteq> Pong) \<longrightarrow> fst (snd (ReadJSON dl evs)) = dl)
   \<and> (steady now (ts @ [t]) \<longrightarrow>
        fst (ReadJSON (now + connectionReadLimit) (map (\<lambda>x. (x, Pong)) ts @ (t, Data p) # rest)) =
          (case decode p of Inl e \<Rightarrow> Inl (DecodeError e) | Inr c \<Rightarrow> Inr c))
   \<and> (t \<le> dl \<longrightarrow>
        read_loop env n dl ((t, Pong) # rest) = read_loop env n (t + connectionReadLimit) rest)
   \<and> (t \<le> now + connectionReadLimit \<longrightarrow>
        handleMessages env now ((t, Pong) # rest) = handleMessages env t rest)
   \<and> (t \<le> dl \<and> decode p = Inr cmd \<longrightarrow>
        read_loop env n dl ((t, Data p) # rest) =
          (fst (read_loop env (Suc n) dl rest),
           Log (Received cmd) # snd (sendHTTPRequest (env n) cmd)
             @ (case fst (sendHTTPRequest (env n) cmd) of
                  Inl de \<Rightarrow> [Log (FailedToProcess de)]
                | Inr u \<Rightarrow> [])
             @ snd (read_loop env (Suc n) dl rest)))
   \<and> ((\<forall>x\<in>set evs. snd x \<noteq> Pong) \<and> now + connectionReadLimit < late \<longrightarrow>
        handleMessages env now (evs @ (late, f) # after) = handleMessages env now evs)
   \<and> (steady now (ts @ [t]) \<and> decode p = Inr cmd \<longrightarrow>
        (\<exists>tl. snd (handleMessages env now (map (\<lambda>x. (x, Pong)) ts @ (t, Data p) # rest)) =
           Log (Received cmd) # tl))"
proof -
  have a: "steady now (ts @ [t]) \<longrightarrow>
        fst (ReadJSON (now + connectionReadLimit) (map (\<lambda>x. (x, Pong)) ts @ (t, Data p) # rest)) =
          (case decode p of Inl e \<Rightarrow> Inl (DecodeError e) | Inr c \<Rightarrow> Inr c)"
  proof
    assume "steady now (ts @ [t])"
    from steady_pongs [OF this, of "Data p" rest]
    show "fst (ReadJSON (now + connectionReadLimit) (map (\<lambda>x. (x, Pong)) ts @ (t, Data p) # rest)) =
          (case decode p of Inl e \<Rightarrow> Inl (DecodeError e) | Inr c \<Rightarrow> Inr c)"
      by (simp split: sum.splits)
  qed
  have b: "t \<le> dl \<longrightarrow>
        read_loop env n dl ((t, Pong) # rest) = read_loop env n (t + connectionReadLimit) rest"
    by (simp add: read_loop_pong)
  have c: "t \<le> now + connectionReadLimit \<longrightarrow>
        handleMessages env now ((t, Pong) # rest) = handleMessages env t rest"
    by (simp add: handleMessages_shape read_loop_pong)
  have d: "t \<le> dl \<and> decode p = Inr cmd \<longrightarrow>
        read_loop env n dl ((t, Data p) # rest) =
          (fst (read_loop env (Suc n) dl rest),
           Log (Received cmd) # snd (sendHTTPRequest (env n) cmd)
             @ (case fst (sendHTTPRequest (env n) cmd) of
                  Inl de \<Rightarrow> [Log (FailedToProcess de)]
                | Inr u \<Rightarrow> [])
             @ snd (read_loop env (Suc n) dl rest))"
  proof
    assume "t \<le> dl \<and> decode p = Inr cmd"
    then have "ReadJSON dl ((t, Data p) # rest) = (Inr cmd, dl, rest)"
      by (simp add: ReadJSON_data)
    then show "read_loop env n dl ((t, Data p) # rest) =
          (fst (read_loop env (Suc n) dl rest),
           Log (Received cmd) # snd (sendHTTPRequest (env n) cmd)
             @ (case fst (sendHTTPRequest (env n) cmd) of
                  Inl de \<Rightarrow> [Log (FailedToProcess de)]
                | Inr u \<Rightarrow> [])
             @ snd (read_loop env (Suc n) dl rest))"
      by (rule read_loop_command)
  qed
  have e: "(\<forall>x\<in>set evs. snd x \<noteq> Pong) \<and> now + connectionReadLimit < late \<longrightarrow>
        handleMessages env now (evs @ (late, f) # after) = handleMessages env now evs"
    by (simp add: handleMessages_shape no_pong_late_frame)
  have g: "steady now (ts @ [t]) \<and> decode p = Inr cmd \<longrightarrow>
        (\<exists>tl. snd (handleMessages env now (map (\<lambda>x. (x, Pong)) ts @ (t, Data p) # rest)) =
           Log (Received cmd) # tl)"
  proof
    assume h: "steady now (ts @ [t]) \<and> decode p = Inr cmd"
    then have st: "steady now (ts @ [t])" and dc: "decode p = Inr cmd"
      by simp_all
    from steady_pongs_loop [OF st, of env 0 "Data p" rest]
    have eq: "read_loop env 0 (now + connectionReadLimit) (map (\<lambda>x. (x, Pong)) ts @ (t, Data p) # rest) =
        read_loop env 0 (last (now # ts) + connectionReadLimit) ((t, Data p) # rest)"
      and le: "t \<le> last (now # ts) + connectionReadLimit"
      by simp_all
    from ReadJSON_data [OF le dc, of rest]
    have "\<exists>tl. snd (read_loop env 0 (last (now # ts) + connectionReadLimit) ((t, Data p) # rest)) =
        Log (Received cmd) # tl"
      by (simp add: read_loop_command)
    with eq show "\<exists>tl. snd (handleMessages env now (map (\<lambda>x. (x, Pong)) ts @ (t, Data p) # rest)) =
           Log (Received cmd) # tl"
      by (auto simp: handleMessages_shape)
  qed
  from a b c d e g no_pong_keeps_deadline [of evs dl] show ?thesis
    by simp
qed

theorem pong_rearms_deadline_witness:
  "handleMessages (\<lambda>n u. Response 200) 0
     ([(30 * Second, Data (Some (JObj [])))] @ (61 * Second, Data (Some (JObj []))) # []) =
   handleMessages (\<lambda>n u. Response 200) 0 [(30 * Second, Data (Some (JObj [])))]
   \<and> handleMessages (\<lambda>n u. Response 200) 0
       [(30 * Second, Pong), (61 * Second, Data (Some (JObj [])))] =
     handleMessages (\<lambda>n u. Response 200) (30 * Second) [(61 * Second, Data (Some (JObj [])))]
   \<and> handleMessages (\<lambda>n u. Response 200) 0
       [(30 * Second, Pong), (61 * Second, Data (Some (JObj [])))] =
     (Timeout,
      [Log (Received zeroCommand),
       Log (SendingPost ''http://localhost:8080/api/device/gpo/light/?mode=&turnOn=false''),
       HTTPPost ''http://localhost:8080/api/device/gpo/light/?mode=&turnOn=false'',
       Log (Successful []), ConnClose, CloseDone])
   \<and> handleMessages (\<lambda>n u. Response 200) 0
       [(30 * Second, Data (Some (JObj []))), (61 * Second, Data (Some (JObj [])))] =
     (Timeout,
      [Log (Received zeroCommand),
       Log (SendingPost ''http://localhost:8080/api/device/gpo/light/?mode=&turnOn=false''),
       HTTPPost ''http://localhost:8080/api/device/gpo/light/?mode=&turnOn=false'',
       Log (Successful []), ConnClose, CloseDone])
   \<and> ReadJSON 60 [(50, Data (Some (JObj []))), (100, Pong)] = (Inr zeroCommand, 60, [(100, Pong)])
   \<and> fst (ReadJSON (0 + connectionReadLimit)
        (map (\<lambda>x. (x, Pong)) [50 * Second, 100 * Second] @ [(150 * Second, Data (Some (JObj [])))])) =
       Inr zeroCommand"
proof -
  have s: "steady 0 ([50 * Second, 100 * Second] @ [150 * Second])"
    by (simp add: connectionReadLimit_def Second_def)
  have n: "\<forall>x\<in>set [(30 * Second, Data (Some (JObj [])))]. snd x \<noteq> Pong"
    by simp
  have l: "0 + connectionReadLimit < 61 * Second" "30 * Second \<le> 0 + connectionReadLimit"
    by (simp_all add: connectionReadLimit_def Second_def)
  show ?thesis
    using pong_rearms_deadline [where t = "30 * Second" and dl = 60 and now = 0
        and rest = "[(61 * Second, Data (Some (JObj [])))]" and p = "Some (JObj [])"
        and cmd = zeroCommand and evs = "[(30 * Second, Data (Some (JObj [])))]"
        and ts = "[]" and env = "\<lambda>n u. Response 200" and n = 0
        and late = "61 * Second" and f = "Data (Some (JObj []))" and after = "[]"]
      pong_rearms_deadline [where t = 50 and dl = 60 and now = 0
        and rest = "[(100, Pong)]" and p = "Some (JObj [])"
        and cmd = zeroCommand and evs = "[]"
        and ts = "[]" and env = "\<lambda>n u. Response 200" and n = 0
        and late = "61 * Second" and f = "Data (Some (JObj []))" and after = "[]"]
      pong_rearms_deadline [where t = "150 * Second" and dl = 60 and now = 0
        and rest = "[]" and p = "Some (JObj [])"
        and cmd = zeroCommand and evs = "[]"
        and ts = "[50 * Second, 100 * Second]" and env = "\<lambda>n u. Response 200" and n = 0
        and late = "61 * Second" and f = "Data (Some (JObj []))" and after = "[]"]
      s n l decode_empty_object
    by (simp add: handleMessages_shape read_loop_command read_loop_exit read_loop_pong
          sendHTTPRequest_def StatusOK_def apiURL_def fmt_bool_def zeroCommand_def
          connectionReadLimit_def Second_def)
qed

section \<open>Properties of decoding\<close>

lemma known_keys:
  "match_field ''device_id'' ''device_id''"
  "\<not> match_field ''device_id'' ''mode''"
  "\<not> match_field ''device_id'' ''turnOn''"
  "\<not> match_field ''device_id'' ''turn_on''"
  "\<not> match_field ''device_id'' ''colour''"
  "match_field ''mode'' ''mode''"
  "\<not> match_field ''mode'' ''turnOn''"
  "\<not> match_field ''mode'' ''turn_on''"
  "\<not> match_field ''mode'' ''colour''"
  "match_field ''turnOn'' ''turnOn''"
  "\<not> match_field ''turnOn'' ''turn_on''"
  "\<not> match_field ''turnOn'' ''colour''"
  by (simp_all add: match_field_def lower_ascii_def)












text \<open>
  C2, as stated, fails: the key \<^verbatim>\<open>turn_on\<close> matches no field of \<^verbatim>\<open>Command\<close>, whose boolean
  field is tagged \<^verbatim>\<open>turnOn\<close>; the member is skipped, \<^verbatim>\<open>TurnOn\<close> stays false and the
  request carries \<^verbatim>\<open>turnOn=false\<close>.
\<close>

theorem turn_on_key_ignored:
  "decode (Some (JObj [(''device_id'', JStr ''A1''), (''mode'', JStr ''auto''), (''turn_on'', JBool True)])) =
     Inr \<lparr>DeviceID = ''A1'', Mode = ''auto'', TurnOn = False\<rparr>
   \<and> handleMessages (\<lambda>n u. Response 200) 0
        [(1, Data (Some (JObj [(''device_id'', JStr ''A1''), (''mode'', JStr ''auto''),
                               (''turn_on'', JBool True)])))] =
       (Timeout,
        [Log (Received \<lparr>DeviceID = ''A1'', Mode = ''auto'', TurnOn = False\<rparr>),
         Log (SendingPost ''http://localhost:8080/api/device/gpo/light/A1?mode=auto&turnOn=false''),
         HTTPPost ''http://localhost:8080/api/device/gpo/light/A1?mode=auto&turnOn=false'',
         Log (Successful ''A1''), ConnClose, CloseDone])"
  by (simp add: decode_def known_keys zeroCommand_def handleMessages_shape
        read_loop_command read_loop_exit sendHTTPRequest_def apiURL_def fmt_bool_def StatusOK_def
        connectionReadLimit_def Second_def)

text \<open>
  C2, amended. For the inbound message with the members \<^verbatim>\<open>device_id\<close> "A1", \<^verbatim>\<open>mode\<close>
  "auto" and \<^verbatim>\<open>turnOn\<close> true, the decoded Command has \<^verbatim>\<open>TurnOn\<close> true and the local
  service receives a POST for device A1 with the query \<^verbatim>\<open>mode=auto&turnOn=true\<close>.
\<close>

theorem turnOn_key_dispatched:
  "decode (Some (JObj [(''device_id'', JStr ''A1''), (''mode'', JStr ''auto''), (''turnOn'', JBool True)])) =
     Inr \<lparr>DeviceID = ''A1'', Mode = ''auto'', TurnOn = True\<rparr>
   \<and> handleMessages (\<lambda>n u. Response 200) 0
        [(1, Data (Some (JObj [(''device_id'', JStr ''A1''), (''mode'', JStr ''auto''),
                               (''turnOn'', JBool True)])))] =
       (Timeout,
        [Log (Received \<lparr>DeviceID = ''A1'', Mode = ''auto'', TurnOn = True\<rparr>),
         Log (SendingPost ''http://localhost:8080/api/device/gpo/light/A1?mode=auto&turnOn=true''),
         HTTPPost ''http://localhost:8080/api/device/gpo/light/A1?mode=auto&turnOn=true'',
         Log (Successful ''A1''), ConnClose, CloseDone])
   \<and> url_location ''http://localhost:8080/api/device/gpo/light/A1?mode=auto&turnOn=true'' =
       ''http://localhost:8080/api/device/gpo/light/A1''
   \<and> query_params ''http://localhost:8080/api/device/gpo/light/A1?mode=auto&turnOn=true'' =
       [''mode=auto'', ''turnOn=true'']"
  by (simp add: decode_def known_keys zeroCommand_def handleMessages_shape
        read_loop_command read_loop_exit sendHTTPRequest_def apiURL_def fmt_bool_def StatusOK_def
        connectionReadLimit_def Second_def url_location_def query_params_def url_rawquery_def cut_def)

section \<open>Properties of the request URL\<close>










section \<open>Properties of the two goroutines of a session\<close>

lemma after_stop_append_in:
  "ByReader CloseDone \<in> set h \<Longrightarrow> after_stop (h @ k) = after_stop h @ k"
  by (simp add: after_stop_def dropWhile_append1)

lemma after_stop_append_out:
  "ByReader CloseDone \<notin> set h \<Longrightarrow> after_stop (h @ k) = after_stop k"
proof -
  assume "ByReader CloseDone \<notin> set h"
  then have "\<And>x. x \<in> set h \<Longrightarrow> x \<noteq> ByReader CloseDone"
    by blast
  then show ?thesis
    unfolding after_stop_def by (rule dropWhile_append2)
qed

lemma filter_stop_in: "length (filter (\<lambda>e. e = x) h) = 1 \<Longrightarrow> x \<in> set h"
  by (induction h) (auto split: if_splits)

lemma filter_stop_out: "x \<notin> set h \<Longrightarrow> filter (\<lambda>e. e = x) h = []"
  by (induction h) auto

lemma takeWhile_until: "x \<notin> set h \<Longrightarrow> takeWhile (\<lambda>e. e \<noteq> x) (h @ x # k) = h"
  by (induction h) auto

lemma start_session_inv: "session_inv (start_session env now evs)"
  using read_loop_no_teardown [of env 0 "now + connectionReadLimit" evs]
  by (simp add: session_inv_def start_session_def handleMessages_shape)

lemma step_reader_inv:
  assumes "session_inv s" and "step StepReader s = Some s'"
  shows "session_inv s'"
proof (cases "done_closed s")
  case True
  with assms show ?thesis by (simp add: session_inv_def)
next
  case nd: False
  show ?thesis
  proof (cases "conn_open s")
    case True
    with nd assms(1) obtain pre where
      r: "reader s = pre @ [ConnClose, CloseDone]" and
      p: "ConnClose \<notin> set pre" "CloseDone \<notin> set pre" and
      h: "ByReader CloseDone \<notin> set (history s)"
      by (auto simp: session_inv_def)
    show ?thesis
    proof (cases pre)
      case Nil
      with r assms(2) have "s' = s\<lparr>reader := [CloseDone], conn_open := False,
          done_closed := done_closed s, history := history s @ [ByReader ConnClose]\<rparr>"
        by simp
      with nd h show ?thesis
        by (simp add: session_inv_def)
    next
      case (Cons a pre')
      with p have a: "a \<noteq> ConnClose" "a \<noteq> CloseDone" by auto
      from Cons r assms(2) a have "s' = s\<lparr>reader := pre' @ [ConnClose, CloseDone],
          conn_open := conn_open s, done_closed := done_closed s,
          history := history s @ [ByReader a]\<rparr>"
        by simp
      with nd True h a p Cons show ?thesis
        by (simp add: session_inv_def)
    qed
  next
    case False
    with nd assms(1) have r: "reader s = [CloseDone]"
      and c: "ByReader ConnClose \<in> set (history s)"
      and h: "ByReader CloseDone \<notin> set (history s)"
      by (auto simp: session_inv_def)
    from r assms(2) have s': "s' = s\<lparr>reader := [], conn_open := conn_open s,
        done_closed := True, history := history s @ [ByReader CloseDone]\<rparr>"
      by simp
    have t: "takeWhile (\<lambda>e. e \<noteq> ByReader CloseDone) (history s @ [ByReader CloseDone]) = history s"
      using h by (rule takeWhile_until)
    have "after_stop (history s @ [ByReader CloseDone]) = [ByReader CloseDone]"
      using after_stop_append_out [OF h, of "[ByReader CloseDone]"] by (simp add: after_stop_def)
    with s' False c t h show ?thesis
      by (simp add: session_inv_def pings_after_stop_def filter_stop_out)
  qed
qed


lemma step_monitor_shape:
  "step (StepMonitor c ok) s = Some s' \<Longrightarrow>
   s' = s\<lparr>monitor_running := snd (keepAlive_iter c (conn_open s \<and> ok)),
          history := history s @ map ByMonitor (fst (keepAlive_iter c (conn_open s \<and> ok)))\<rparr>"
  by (auto split: if_splits prod.splits)

lemma step_monitor_inv:
  assumes "session_inv s" and "step (StepMonitor c ok) s = Some s'"
  shows "session_inv s'"
proof -
  from assms(2) have en: "monitor_running s" "c = CaseTick \<or> done_closed s"
    by (auto split: if_splits)
  show ?thesis
  proof (cases "done_closed s")
    case False
    with en have c: "c = CaseTick" by simp
    from step_monitor_shape [OF assms(2)]
    have "reader s' = reader s \<and> conn_open s' = conn_open s \<and> done_closed s' = done_closed s
        \<and> ByReader CloseDone \<notin> set (history s') - set (history s)
        \<and> set (history s) \<subseteq> set (history s')"
      by auto
    with False assms(1) show ?thesis
      by (auto simp: session_inv_def)
  next
    case True
    with assms(1) have inv:
      "\<not> conn_open s" "reader s = []"
      "length (filter (\<lambda>e. e = ByReader CloseDone) (history s)) = 1"
      "ByReader ConnClose \<in> set (takeWhile (\<lambda>e. e \<noteq> ByReader CloseDone) (history s))"
      "ByMonitor (WritePing True) \<notin> set (after_stop (history s))"
      "pings_after_stop (history s) = []"
      using en(1) by (auto simp: session_inv_def)
    from inv(3) have mem: "ByReader CloseDone \<in> set (history s)"
      by (rule filter_stop_in)
    define acts where "acts = fst (keepAlive_iter c (conn_open s \<and> ok))"
    have acts: "acts = [TickerStop] \<or> acts = [WritePing False, Log FailedToSendPing, TickerStop]"
      and stops: "snd (keepAlive_iter c (conn_open s \<and> ok)) = False"
      using inv(1) by (cases c; simp add: acts_def)+
    from step_monitor_shape [OF assms(2)] stops
    have s': "s' = s\<lparr>monitor_running := False, history := history s @ map ByMonitor acts\<rparr>"
      by (simp add: acts_def)
    have h1: "length (filter (\<lambda>e. e = ByReader CloseDone) (history s @ map ByMonitor acts)) = 1"
      using inv(3) acts by auto
    have h2: "ByReader ConnClose
        \<in> set (takeWhile (\<lambda>e. e \<noteq> ByReader CloseDone) (history s @ map ByMonitor acts))"
      using inv(4) mem by (simp add: takeWhile_append1)
    have h3: "after_stop (history s @ map ByMonitor acts) = after_stop (history s) @ map ByMonitor acts"
      using mem by (rule after_stop_append_in)
    have h4: "ByMonitor (WritePing True) \<notin> set (after_stop (history s @ map ByMonitor acts))"
      unfolding h3 using inv(5) acts by auto
    have h5: "length (pings_after_stop (history s @ map ByMonitor acts)) \<le> 1"
      using inv(6) acts by (auto simp: pings_after_stop_def h3)
    from s' True inv(1,2) h1 h2 h4 h5 show ?thesis
      by (simp add: session_inv_def)
  qed
qed

lemma step_inv: "session_inv s \<Longrightarrow> step x s = Some s' \<Longrightarrow> session_inv s'"
  by (cases x) (auto intro: step_reader_inv step_monitor_inv)

lemma run_inv: "session_inv s \<Longrightarrow> run sch s = Some s' \<Longrightarrow> session_inv s'"
proof (induction sch arbitrary: s)
  case Nil
  then show ?case by simp
next
  case (Cons x sch)
  from Cons.prems(2) obtain s1 where s1: "step x s = Some s1" and r: "run sch s1 = Some s'"
    by (auto split: option.splits)
  from step_inv [OF Cons.prems(1) s1] have "session_inv s1" .
  from Cons.IH [OF this r] show ?case .
qed

lemma reachable_inv: "run sch (start_session env now evs) = Some s \<Longrightarrow> session_inv s"
  using start_session_inv by (rule run_inv)

lemma last_iteration:
  assumes "session_inv s" and "done_closed s" and "step (StepMonitor c ok) s = Some s'"
  shows "\<not> monitor_running s'"
proof -
  from assms(1,2) have "\<not> conn_open s" by (simp add: session_inv_def)
  with assms(3) show ?thesis
    by (cases c) (auto split: if_splits)
qed

text \<open>
  C3, as stated, fails: with \<^verbatim>\<open>done\<close> closed and a tick pending, the \<^verbatim>\<open>select\<close> may take
  the tick, and \<^verbatim>\<open>keepAlive\<close> then calls \<^verbatim>\<open>conn.WriteMessage\<close> once more.
\<close>

theorem ping_attempt_after_stop:
  "run [StepReader, StepReader, StepMonitor CaseTick True] (start_session (\<lambda>n u. Response 200) 0 []) =
     Some \<lparr>reader = [], conn_open = False, done_closed = True, monitor_running = False,
           history = [ByReader ConnClose, ByReader CloseDone, ByMonitor (WritePing False),
                      ByMonitor (Log FailedToSendPing), ByMonitor TickerStop]\<rparr>
   \<and> pings_after_stop [ByReader ConnClose, ByReader CloseDone, ByMonitor (WritePing False),
                        ByMonitor (Log FailedToSendPing), ByMonitor TickerStop] =
       [ByMonitor (WritePing False)]"
  by (simp add: start_session_def handleMessages_shape read_loop_exit pings_after_stop_def after_stop_def)

text \<open>
  C3, amended. After \<^verbatim>\<open>done\<close> is closed no ping is written to the connection:
  \<^verbatim>\<open>keepAlive\<close> attempts at most one more, which fails because the connection was closed
  before \<^verbatim>\<open>done\<close>, and its next iteration after the signal is its last. Each iteration
  acts on one case of the \<^verbatim>\<open>select\<close>: on \<^verbatim>\<open>done\<close> it returns without a ping, on a tick
  it attempts exactly one ping and goes on only if the write succeeded.
\<close>

theorem no_ping_written_after_stop:
  assumes "run sch (start_session env now evs) = Some s"
  shows "ByMonitor (WritePing True) \<notin> set (after_stop (history s))
         \<and> length (pings_after_stop (history s)) \<le> 1
         \<and> (pings_after_stop (history s) \<noteq> [] \<longrightarrow> \<not> monitor_running s)
         \<and> (done_closed s \<and> step (StepMonitor c ok) s = Some s' \<longrightarrow> \<not> monitor_running s')
         \<and> keepAlive_iter CaseDone w = ([TickerStop], False)
         \<and> filter is_ping (map ByMonitor (fst (keepAlive_iter CaseTick w))) = [ByMonitor (WritePing w)]
         \<and> snd (keepAlive_iter CaseTick w) = w"
proof -
  from assms have inv: "session_inv s" by (rule reachable_inv)
  have a: "ByMonitor (WritePing True) \<notin> set (after_stop (history s))
         \<and> length (pings_after_stop (history s)) \<le> 1
         \<and> (pings_after_stop (history s) \<noteq> [] \<longrightarrow> \<not> monitor_running s)"
  proof (cases "done_closed s")
    case True
    with inv show ?thesis by (simp add: session_inv_def)
  next
    case False
    with inv have "ByReader CloseDone \<notin> set (history s)" by (simp add: session_inv_def)
    from after_stop_append_out [OF this, of "[]"] have "after_stop (history s) = after_stop []"
      by simp
    then have "after_stop (history s) = []"
      by (simp add: after_stop_def)
    then show ?thesis
      by (simp add: pings_after_stop_def)
  qed
  have b: "done_closed s \<and> step (StepMonitor c ok) s = Some s' \<longrightarrow> \<not> monitor_running s'"
    using last_iteration [OF inv] by blast
  from a b show ?thesis by simp
qed

theorem no_ping_written_after_stop_witness:
  "run [StepReader, StepReader] (start_session (\<lambda>n u. Response 200) 0 []) =
     Some \<lparr>reader = [], conn_open = False, done_closed = True, monitor_running = True,
           history = [ByReader ConnClose, ByReader CloseDone]\<rparr>
   \<and> step (StepMonitor CaseTick True)
        \<lparr>reader = [], conn_open = False, done_closed = True, monitor_running = True,
         history = [ByReader ConnClose, ByReader CloseDone]\<rparr> =
       Some \<lparr>reader = [], conn_open = False, done_closed = True, monitor_running = False,
             history = [ByReader ConnClose, ByReader CloseDone, ByMonitor (WritePing False),
                        ByMonitor (Log FailedToSendPing), ByMonitor TickerStop]\<rparr>
   \<and> ByMonitor (WritePing True) \<notin> set (after_stop [ByReader ConnClose, ByReader CloseDone])
   \<and> length (pings_after_stop [ByReader ConnClose, ByReader CloseDone]) \<le> 1
   \<and> \<not> monitor_running
        \<lparr>reader = [], conn_open = False, done_closed = True, monitor_running = False,
         history = [ByReader ConnClose, ByReader CloseDone, ByMonitor (WritePing False),
                    ByMonitor (Log FailedToSendPing), ByMonitor TickerStop]\<rparr>"
proof -
  have r: "run [StepReader, StepReader] (start_session (\<lambda>n u. Response 200) 0 []) =
     Some \<lparr>reader = [], conn_open = False, done_closed = True, monitor_running = True,
           history = [ByReader ConnClose, ByReader CloseDone]\<rparr>"
    by (simp add: start_session_def handleMessages_shape read_loop_exit)
  from no_ping_written_after_stop [OF r, of CaseTick True _ False] r
  show ?thesis by simp
qed

text \<open>
  C4, as stated, fails: \<^verbatim>\<open>handleMessages\<close> closes the connection before it closes
  \<^verbatim>\<open>done\<close>, and returns to \<^verbatim>\<open>main\<close> without waiting for \<^verbatim>\<open>keepAlive\<close>; here
  \<^verbatim>\<open>keepAlive\<close> is still running when the connection is closed, and when
  \<^verbatim>\<open>handleMessages\<close> has returned.
\<close>

theorem monitor_outlives_transport:
  "run [StepReader] (start_session (\<lambda>n u. Response 200) 0 []) =
     Some \<lparr>reader = [CloseDone], conn_open = False, done_closed = False, monitor_running = True,
           history = [ByReader ConnClose]\<rparr>
   \<and> run [StepReader, StepReader] (start_session (\<lambda>n u. Response 200) 0 []) =
     Some \<lparr>reader = [], conn_open = False, done_closed = True, monitor_running = True,
           history = [ByReader ConnClose, ByReader CloseDone]\<rparr>"
  by (simp add: start_session_def handleMessages_shape read_loop_exit)

text \<open>
  C4, amended. In every session \<^verbatim>\<open>done\<close> is closed exactly once, as the last action of
  \<^verbatim>\<open>handleMessages\<close>: after the read loop has ended and after the connection has been
  closed. Nothing waits for \<^verbatim>\<open>keepAlive\<close>; its next iteration after the signal is its
  last.
\<close>

theorem stop_signal_once_after_close:
  assumes "run sch (start_session env now evs) = Some s"
  shows "(\<exists>pre. snd (handleMessages env now evs) = pre @ [ConnClose, CloseDone]
            \<and> ConnClose \<notin> set pre \<and> CloseDone \<notin> set pre)
         \<and> length (filter (\<lambda>e. e = ByReader CloseDone) (history s)) = (if done_closed s then 1 else 0)
         \<and> (done_closed s \<longrightarrow>
              \<not> conn_open s \<and> reader s = []
              \<and> ByReader ConnClose \<in> set (takeWhile (\<lambda>e. e \<noteq> ByReader CloseDone) (history s)))
         \<and> (reader s = [] \<longrightarrow> done_closed s)
         \<and> (done_closed s \<and> step (StepMonitor c ok) s = Some s' \<longrightarrow> \<not> monitor_running s')"
proof -
  from assms have inv: "session_inv s" by (rule reachable_inv)
  have a: "\<exists>pre. snd (handleMessages env now evs) = pre @ [ConnClose, CloseDone]
            \<and> ConnClose \<notin> set pre \<and> CloseDone \<notin> set pre"
    using read_loop_no_teardown [of env 0 "now + connectionReadLimit" evs]
    by (simp add: handleMessages_shape)
  have b: "length (filter (\<lambda>e. e = ByReader CloseDone) (history s)) = (if done_closed s then 1 else 0)"
    using inv by (auto simp: session_inv_def filter_stop_out)
  have c: "done_closed s \<longrightarrow>
              \<not> conn_open s \<and> reader s = []
              \<and> ByReader ConnClose \<in> set (takeWhile (\<lambda>e. e \<noteq> ByReader CloseDone) (history s))"
    using inv by (simp add: session_inv_def)
  have d: "reader s = [] \<longrightarrow> done_closed s"
    using inv by (auto simp: session_inv_def split: if_splits)
  have e: "done_closed s \<and> step (StepMonitor c ok) s = Some s' \<longrightarrow> \<not> monitor_running s'"
    using last_iteration [OF inv] by blast
  from a b c d e show ?thesis by blast
qed

theorem stop_signal_once_after_close_witness:
  "run [StepReader, StepMonitor CaseTick True, StepReader]
       (start_session (\<lambda>n u. Response 200) 0 []) =
     Some \<lparr>reader = [], conn_open = False, done_closed = True, monitor_running = False,
           history = [ByReader ConnClose, ByMonitor (WritePing False),
                      ByMonitor (Log FailedToSendPing), ByMonitor TickerStop, ByReader CloseDone]\<rparr>
   \<and> snd (handleMessages (\<lambda>n u. Response 200) 0 []) = [] @ [ConnClose, CloseDone]
   \<and> length (filter (\<lambda>e. e = ByReader CloseDone)
        [ByReader ConnClose, ByMonitor (WritePing False), ByMonitor (Log FailedToSendPing),
         ByMonitor TickerStop, ByReader CloseDone]) = 1
   \<and> ByReader ConnClose \<in> set (takeWhile (\<lambda>e. e \<noteq> ByReader CloseDone)
        [ByReader ConnClose, ByMonitor (WritePing False), ByMonitor (Log FailedToSendPing),
         ByMonitor TickerStop, ByReader CloseDone])"
proof -
  have r: "run [StepReader, StepMonitor CaseTick True, StepReader]
       (start_session (\<lambda>n u. Response 200) 0 []) =
     Some \<lparr>reader = [], conn_open = False, done_closed = True, monitor_running = False,
           history = [ByReader ConnClose, ByMonitor (WritePing False),
                      ByMonitor (Log FailedToSendPing), ByMonitor TickerStop, ByReader CloseDone]\<rparr>"
    by (simp add: start_session_def handleMessages_shape read_loop_exit)
  from stop_signal_once_after_close [OF r, of CaseDone True] r
  show ?thesis by (simp add: handleMessages_shape read_loop_exit)
qed

section \<open>Properties of main\<close>

text \<open>
  C7. However many times in a row \<^verbatim>\<open>Dial\<close> fails, \<^verbatim>\<open>main\<close> sleeps the same two
  seconds after each failure and dials again: the pause does not grow, no count of
  failures ends the loop, and after the failures the loop goes on as from its start.
\<close>

theorem dial_failures_retry_forever:
  "main_loop env (replicate n DialError @ ds) =
     concat (replicate n [Log Attempting, Dial wsURL, Log FailedToConnect, Sleep (2 * Second)])
       @ main_loop env ds"
  by (induction n) simp_all

theorem dial_failures_retry_forever_witness:
  "main_loop (\<lambda>n u. DoError) (replicate 3 DialError @ [DialError]) =
     concat (replicate 3 [Log Attempting, Dial wsURL, Log FailedToConnect, Sleep (2 * Second)])
       @ main_loop (\<lambda>n u. DoError) [DialError]"
  by (rule dial_failures_retry_forever)

end
